theory Spec2Isabelle
  imports Complex_Main
begin

section \<open>Data model (CaptchaValidator.tsx, ShapeValidation.tsx)\<close>

text \<open>
  The string unions of the source are datatypes. Sector indices are the numbers the
  code produces and the grid buttons submit: natural numbers. \<open>attemptCount\<close> and
  \<open>maxAttempts\<close> are integers, since the code subtracts one from the other.
\<close>

datatype CaptchaStep = Camera | Validation | Result

datatype ValidationShape = Triangle | Square | Circle

datatype ValidationColor = Red | Green | Blue

record SquarePosition =
  x :: real
  y :: real
  size :: real

record CapturedData =
  imageData :: string
  squarePosition :: SquarePosition

record ValidationChallenge =
  shape :: ValidationShape
  color :: "ValidationColor option"
  correctSectors :: "nat list"

section \<open>Scoring (handleValidationComplete, the isCorrect expression)\<close>

text \<open>
  \<^verbatim>\<open>selectedSectors.length === challenge.correctSectors.length &&
  selectedSectors.every(sector => challenge.correctSectors.includes(sector)) &&
  challenge.correctSectors.every(sector => selectedSectors.includes(sector))\<close>
\<close>

definition js_includes :: "'a list \<Rightarrow> 'a \<Rightarrow> bool" where
  "js_includes xs v = (v \<in> set xs)"

definition js_every :: "'a list \<Rightarrow> ('a \<Rightarrow> bool) \<Rightarrow> bool" where
  "js_every xs p = list_all p xs"

definition isCorrect :: "nat list \<Rightarrow> nat list \<Rightarrow> bool" where
  "isCorrect selectedSectors correct =
     (length selectedSectors = length correct \<and>
      js_every selectedSectors (\<lambda>sector. js_includes correct sector) \<and>
      js_every correct (\<lambda>sector. js_includes selectedSectors sector))"

section \<open>The random source (Math.random)\<close>

text \<open>
  \<^verbatim>\<open>Math.random()\<close> returns a double \<open>r\<close> with \<open>0 \<le> r < 1\<close>. Such a double is
  \<open>m / 2 ^ e\<close> for natural numbers \<open>m < 2 ^ 53\<close> and \<open>e \<le> 1074\<close>, and every such
  quotient below 1 is a double; a draw is a pair \<open>(m, e)\<close> of this kind (several pairs may
  stand for the same double; the results below depend on the quotient only, see
  \<open>floor_times_value_only\<close> and \<open>less_0_3_value_only\<close>). The random
  source is the sequence of draws the calls return, in call order: \<open>rnd k\<close> is the result of
  call number \<open>k\<close> of a handler or of a render.
\<close>

definition is_unit_double :: "nat \<times> nat \<Rightarrow> bool" where
  "is_unit_double me = (case me of (m, e) \<Rightarrow> m < 2 ^ 53 \<and> e \<le> 1074 \<and> m < 2 ^ e)"

typedef unit_draw = "{me. is_unit_double me}"
  by (rule exI [of _ "(0, 0)"]) (simp add: is_unit_double_def)

type_synonym random_source = "nat \<Rightarrow> unit_draw"

definition mantissa :: "unit_draw \<Rightarrow> nat" where
  "mantissa d = fst (Rep_unit_draw d)"

definition exponent :: "unit_draw \<Rightarrow> nat" where
  "exponent d = snd (Rep_unit_draw d)"

definition draw_value :: "unit_draw \<Rightarrow> real" where
  "draw_value d = real (mantissa d) / 2 ^ exponent d"

text \<open>
  The product \<^verbatim>\<open>Math.random() * n\<close> is the exact product rounded to 53 significant bits,
  ties to even. With the draw \<open>m / 2 ^ e\<close> the exact product is \<open>(m * n) / 2 ^ e\<close>;
  \<open>excess_bits p\<close> is the number of low bits that \<open>p\<close> has beyond 53,
  \<open>round_half_even p b\<close> is \<open>p / 2 ^ b\<close> rounded to the nearest integer, ties to even,
  and \<open>round53 p\<close> is the numerator of the rounded product. (The factors of this program
  are 3, 4 and 16: the product is far from overflow, and where bits are dropped it is at
  least \<open>2 ^ 53 / 2 ^ 1074\<close>, a normal number, so that the rounded value is a double.)
  \<open>floor_times d n\<close> is \<^verbatim>\<open>Math.floor(Math.random() * n)\<close>.
\<close>

function excess_bits :: "nat \<Rightarrow> nat" where
  "excess_bits p = (if p < 2 ^ 53 then 0 else Suc (excess_bits (p div 2)))"
  by pat_completeness auto
termination
  by (relation "measure id") auto

definition round_half_even :: "nat \<Rightarrow> nat \<Rightarrow> nat" where
  "round_half_even p b =
     (let t = p div 2 ^ b; r = p mod 2 ^ b
      in if 2 ^ b < 2 * r \<or> (2 * r = 2 ^ b \<and> odd t) then t + 1 else t)"

definition round53 :: "nat \<Rightarrow> nat" where
  "round53 p = (let b = excess_bits p in round_half_even p b * 2 ^ b)"

definition floor_times :: "unit_draw \<Rightarrow> nat \<Rightarrow> nat" where
  "floor_times d n = round53 (mantissa d * n) div 2 ^ exponent d"

text \<open>
  \<^verbatim>\<open>Math.random() < 0.3\<close> compares the draw with the double nearest to 0.3, which is
  \<open>5404319552844595 / 2 ^ 54\<close>.
\<close>

definition less_0_3 :: "unit_draw \<Rightarrow> bool" where
  "less_0_3 d = (mantissa d * 2 ^ 54 < 5404319552844595 * 2 ^ exponent d)"

declare excess_bits.simps [simp del]

definition shapes :: "ValidationShape list" where
  "shapes = [Triangle, Square, Circle]"

definition colors :: "ValidationColor list" where
  "colors = [Red, Green, Blue]"

section \<open>Challenge generation (handleCameraCapture)\<close>

text \<open>
  The \<^verbatim>\<open>while (correctSectors.length < numCorrectSectors)\<close> loop: each round draws a
  sector and pushes it unless it is already there. Nothing bounds the number of rounds, so
  the loop is a partial function: \<open>None\<close> is the run that never leaves the loop. \<open>k\<close>
  counts the draws already used.
\<close>

partial_function (option) fill_correctSectors ::
  "random_source \<Rightarrow> nat \<Rightarrow> nat \<Rightarrow> nat list \<Rightarrow> nat list option" where
  "fill_correctSectors rnd k numCorrectSectors acc =
     (if length acc < numCorrectSectors
      then (let sector = floor_times (rnd k) 16
            in if \<not> js_includes acc sector
               then fill_correctSectors rnd (k + 1) numCorrectSectors (acc @ [sector])
               else fill_correctSectors rnd (k + 1) numCorrectSectors acc)
      else Some acc)"

text \<open>
  \<^verbatim>\<open>correctSectors.sort()\<close> is called without a comparator: JavaScript then orders the
  elements by their string conversions, compared code unit by code unit. A string is the
  list of its UTF-16 code units; the digit \<open>d\<close> has code unit \<open>48 + d\<close>. The sort is
  stable; it is written as an insertion sort.
\<close>

function decimal_digits :: "nat \<Rightarrow> nat list" where
  "decimal_digits n = (if n < 10 then [n] else decimal_digits (n div 10) @ [n mod 10])"
  by pat_completeness auto
termination
  by (relation "measure id") auto

definition js_toString :: "nat \<Rightarrow> nat list" where
  "js_toString n = map (\<lambda>d. 48 + d) (decimal_digits n)"

fun js_string_less :: "nat list \<Rightarrow> nat list \<Rightarrow> bool" where
  "js_string_less [] [] = False"
| "js_string_less [] (b # bs) = True"
| "js_string_less (a # as) [] = False"
| "js_string_less (a # as) (b # bs) = (a < b \<or> (a = b \<and> js_string_less as bs))"

fun js_sort_insert :: "nat \<Rightarrow> nat list \<Rightarrow> nat list" where
  "js_sort_insert v [] = [v]"
| "js_sort_insert v (w # ws) =
     (if js_string_less (js_toString w) (js_toString v) then w # js_sort_insert v ws
      else v # w # ws)"

definition js_sort :: "nat list \<Rightarrow> nat list" where
  "js_sort xs = foldr js_sort_insert xs []"

text \<open>
  The challenge built by \<^verbatim>\<open>handleCameraCapture\<close>: the draws are used in the order shape,
  colour (only with \<^verbatim>\<open>enableColorTint\<close>), number of sectors, sectors.
\<close>

definition newChallenge :: "bool \<Rightarrow> random_source \<Rightarrow> ValidationChallenge option" where
  "newChallenge enableColorTint rnd =
     (let selectedShape = shapes ! floor_times (rnd 0) (length shapes);
          selectedColor = (if enableColorTint
                           then Some (colors ! floor_times (rnd 1) (length colors)) else None);
          k = (if enableColorTint then 2 else 1);
          numCorrectSectors = floor_times (rnd k) 4 + 2
      in case fill_correctSectors rnd (k + 1) numCorrectSectors [] of
           None \<Rightarrow> None
         | Some sectors \<Rightarrow>
             Some \<lparr>shape = selectedShape, color = selectedColor,
                   correctSectors = js_sort sectors\<rparr>)"

section \<open>The watermark plan (ShapeValidation, watermarkData)\<close>

text \<open>
  The array \<^verbatim>\<open>data\<close> is a list of optional entries, \<open>None\<close> being a hole. An
  assignment \<^verbatim>\<open>data[i] = v\<close> beyond the end extends the array, as JavaScript does.
  In the \<^verbatim>\<open>for\<close> loop, the draw for \<^verbatim>\<open>hasWatermark\<close> is made only when the sector is
  not a correct one (\<^verbatim>\<open>||\<close> short-circuits); the draws for shape and colour follow.
\<close>

record WatermarkData =
  sector :: nat
  wshape :: ValidationShape
  wcolor :: ValidationColor
  hasWatermark :: bool

definition js_assign :: "'a option list \<Rightarrow> nat \<Rightarrow> 'a \<Rightarrow> 'a option list" where
  "js_assign xs i v =
     (if i < length xs then xs[i := Some v]
      else xs @ replicate (i - length xs) None @ [Some v])"

function watermark_loop ::
  "ValidationChallenge \<Rightarrow> random_source \<Rightarrow> nat \<Rightarrow> nat \<Rightarrow> WatermarkData option list
     \<Rightarrow> WatermarkData option list" where
  "watermark_loop ch rnd i k data =
     (if i < 16
      then (let inCorrect = js_includes (correctSectors ch) i;
                hasW = (inCorrect \<or> less_0_3 (rnd k));
                k1 = (if inCorrect then k else k + 1);
                entry = \<lparr>sector = i,
                         wshape = shapes ! floor_times (rnd k1) (length shapes),
                         wcolor = colors ! floor_times (rnd (k1 + 1)) (length colors),
                         hasWatermark = hasW\<rparr>
            in watermark_loop ch rnd (i + 1) (k1 + 2) (data @ [Some entry]))
      else data)"
  by pat_completeness auto
termination
  by (relation "measure (\<lambda>(ch, rnd, i, k, data). 16 - i)") auto

definition watermarkData :: "ValidationChallenge \<Rightarrow> random_source \<Rightarrow> WatermarkData option list" where
  "watermarkData ch rnd =
     fold (\<lambda>sectorIndex data.
             js_assign data sectorIndex
               \<lparr>sector = sectorIndex, wshape = shape ch,
                wcolor = (case color ch of Some c \<Rightarrow> c | None \<Rightarrow> Red),
                hasWatermark = True\<rparr>)
          (correctSectors ch) (watermark_loop ch rnd 0 0 [])"

section \<open>The session state and its handlers (CaptchaValidator)\<close>

record CaptchaState =
  currentStep :: CaptchaStep
  capturedData :: "CapturedData option"
  challenge :: "ValidationChallenge option"
  validationSuccess :: bool
  attemptCount :: int
  isBlocked :: bool

text \<open>The initial values of the \<^verbatim>\<open>useState\<close> hooks.\<close>

definition initial_state :: CaptchaState where
  "initial_state = \<lparr>currentStep = Camera, capturedData = None, challenge = None,
     validationSuccess = False, attemptCount = 0, isBlocked = False\<rparr>"

text \<open>
  Each handler reads the state of the render that created it and returns the state after
  its setters have run. \<^verbatim>\<open>handleCameraCapture\<close> returns \<open>None\<close> when the sector loop
  never ends. \<^verbatim>\<open>handleValidationComplete\<close> also returns the calls it makes to the
  \<^verbatim>\<open>onComplete\<close> callback, as the list of their argument pairs (the prop is optional; the
  list is what a supplied callback receives).
\<close>

definition handleCameraCapture ::
  "bool \<Rightarrow> random_source \<Rightarrow> CapturedData \<Rightarrow> CaptchaState \<Rightarrow> CaptchaState option" where
  "handleCameraCapture enableColorTint rnd data st =
     (case newChallenge enableColorTint rnd of
        None \<Rightarrow> None
      | Some ch \<Rightarrow>
          Some (st\<lparr>capturedData := Some data, challenge := Some ch, currentStep := Validation\<rparr>))"

type_synonym completion = "bool \<times> int"

definition handleValidationComplete ::
  "int \<Rightarrow> nat list \<Rightarrow> CaptchaState \<Rightarrow> CaptchaState \<times> completion list" where
  "handleValidationComplete maxAttempts selectedSectors st =
     (case challenge st of
        None \<Rightarrow> (st, [])
      | Some ch \<Rightarrow>
          (let newAttemptCount = attemptCount st + 1;
               correct = isCorrect selectedSectors (correctSectors ch);
               st1 = st\<lparr>attemptCount := newAttemptCount, validationSuccess := correct\<rparr>
           in if correct
              then (st1\<lparr>currentStep := Result\<rparr>, [(True, newAttemptCount)])
              else if newAttemptCount \<ge> maxAttempts
              then (st1\<lparr>isBlocked := True, currentStep := Result\<rparr>, [(False, newAttemptCount)])
              else (st1\<lparr>currentStep := Result\<rparr>, [])))"

definition handleRetry :: "CaptchaState \<Rightarrow> CaptchaState" where
  "handleRetry st =
     st\<lparr>currentStep := Camera, capturedData := None, challenge := None,
        validationSuccess := False\<rparr>"


section \<open>What is rendered, and which handler can run\<close>

text \<open>
  The JSX of \<^verbatim>\<open>CaptchaValidator\<close> mounts one child per step, with the props below
  (callbacks left out: \<^verbatim>\<open>onCapture\<close> is \<^verbatim>\<open>handleCameraCapture\<close>, \<^verbatim>\<open>onValidate\<close> is
  \<^verbatim>\<open>handleValidationComplete\<close>, \<^verbatim>\<open>onRetry\<close> is \<^verbatim>\<open>handleRetry\<close>). A handler can run
  only through the child that holds it.
\<close>

record ShapeValidationProps =
  sv_capturedData :: CapturedData
  sv_challenge :: ValidationChallenge
  sv_toleranceLevel :: int

record ValidationResultProps =
  vr_success :: bool
  vr_isBlocked :: bool
  vr_attemptCount :: int
  vr_maxAttempts :: int
  vr_canRetry :: bool

datatype view =
    CameraCaptureView
  | ShapeValidationView ShapeValidationProps
  | ValidationResultView ValidationResultProps
  | NothingRendered

definition toleranceLevel :: "int \<Rightarrow> int \<Rightarrow> int" where
  "toleranceLevel maxAttempts attempts = max 1 (maxAttempts - attempts)"

definition canRetry :: "int \<Rightarrow> CaptchaState \<Rightarrow> bool" where
  "canRetry maxAttempts st =
     (\<not> isBlocked st \<and> \<not> validationSuccess st \<and> attemptCount st < maxAttempts)"

definition render :: "int \<Rightarrow> CaptchaState \<Rightarrow> view" where
  "render maxAttempts st =
     (case currentStep st of
        Camera \<Rightarrow> CameraCaptureView
      | Validation \<Rightarrow>
          (case capturedData st of
             None \<Rightarrow> NothingRendered
           | Some d \<Rightarrow>
               (case challenge st of
                  None \<Rightarrow> NothingRendered
                | Some ch \<Rightarrow>
                    ShapeValidationView
                      \<lparr>sv_capturedData = d, sv_challenge = ch,
                       sv_toleranceLevel = toleranceLevel maxAttempts (attemptCount st)\<rparr>))
      | Result \<Rightarrow>
          ValidationResultView
            \<lparr>vr_success = validationSuccess st, vr_isBlocked = isBlocked st,
             vr_attemptCount = attemptCount st, vr_maxAttempts = maxAttempts,
             vr_canRetry = canRetry maxAttempts st\<rparr>)"

text \<open>
  \<^verbatim>\<open>ShapeValidation\<close> uses \<^verbatim>\<open>toleranceLevel\<close> in one place, the warning shown when it is
  below 3; its submit handler passes the selection to \<^verbatim>\<open>onValidate\<close>.
\<close>

definition handleValidate ::
  "ShapeValidationProps \<Rightarrow> (nat list \<Rightarrow> 'r) \<Rightarrow> nat list \<Rightarrow> 'r" where
  "handleValidate props onValidate selectedSectors = onValidate selectedSectors"

text \<open>
  \<^verbatim>\<open>handleSectorClick\<close> toggles a sector in \<^verbatim>\<open>selectedSectors\<close>, which starts empty; the
  list handed to \<^verbatim>\<open>onValidate\<close> is the one a sequence of clicks has built.
\<close>

definition handleSectorClick :: "nat \<Rightarrow> nat list \<Rightarrow> nat list" where
  "handleSectorClick sectorIndex prev =
     (if js_includes prev sectorIndex then filter (\<lambda>index. index \<noteq> sectorIndex) prev
      else prev @ [sectorIndex])"

definition selectedSectors_after :: "nat list \<Rightarrow> nat list" where
  "selectedSectors_after clicks = fold handleSectorClick clicks []"

definition reduced_tolerance_warning :: "ShapeValidationProps \<Rightarrow> bool" where
  "reduced_tolerance_warning props = (sv_toleranceLevel props < 3)"

text \<open>
  \<^verbatim>\<open>ValidationResult\<close> returns one of four screens; only the third one has the
  button that calls \<^verbatim>\<open>onRetry\<close>.
\<close>

datatype result_screen = Successful | AccessBlocked | FailedTryAgain | FailedNoAttempts

definition ValidationResult :: "ValidationResultProps \<Rightarrow> result_screen" where
  "ValidationResult props =
     (if vr_success props then Successful
      else if vr_isBlocked props then AccessBlocked
      else if vr_canRetry props then FailedTryAgain
      else FailedNoAttempts)"

text \<open>
  The phases of the specification, read off the rendered child.
\<close>

datatype phase =
    AwaitingCapture | AwaitingSelection | Success | RetryAvailable | Blocked | NoPhase

definition phase :: "int \<Rightarrow> CaptchaState \<Rightarrow> phase" where
  "phase maxAttempts st =
     (case render maxAttempts st of
        CameraCaptureView \<Rightarrow> AwaitingCapture
      | ShapeValidationView props \<Rightarrow> AwaitingSelection
      | ValidationResultView props \<Rightarrow>
          (case ValidationResult props of
             Successful \<Rightarrow> Success
           | AccessBlocked \<Rightarrow> Blocked
           | FailedTryAgain \<Rightarrow> RetryAvailable
           | FailedNoAttempts \<Rightarrow> NoPhase)
      | NothingRendered \<Rightarrow> NoPhase)"

text \<open>
  A session is the state together with the \<^verbatim>\<open>onComplete\<close> calls made so far. One step is
  one event of the user interface: a capture, a submission or a retry, each through the
  child that is mounted.
\<close>

type_synonym session = "CaptchaState \<times> completion list"

inductive step :: "int \<Rightarrow> bool \<Rightarrow> session \<Rightarrow> session \<Rightarrow> bool"
  for maxAttempts :: int and enableColorTint :: bool where
  capture:
    "render maxAttempts st = CameraCaptureView \<Longrightarrow>
     handleCameraCapture enableColorTint rnd data st = Some st' \<Longrightarrow>
     step maxAttempts enableColorTint (st, calls) (st', calls)"
| submit:
    "render maxAttempts st = ShapeValidationView props \<Longrightarrow>
     handleValidate props (\<lambda>sel. handleValidationComplete maxAttempts sel st) selectedSectors
       = (st', new_calls) \<Longrightarrow>
     step maxAttempts enableColorTint (st, calls) (st', calls @ new_calls)"
| retry:
    "render maxAttempts st = ValidationResultView props \<Longrightarrow>
     ValidationResult props = FailedTryAgain \<Longrightarrow>
     step maxAttempts enableColorTint (st, calls) (handleRetry st, calls)"

definition reachable :: "int \<Rightarrow> bool \<Rightarrow> session \<Rightarrow> bool" where
  "reachable maxAttempts enableColorTint c =
     (step maxAttempts enableColorTint)\<^sup>*\<^sup>* (initial_state, []) c"

section \<open>The draws used by the watermark loop\<close>

text \<open>
  \<open>draws_before cs i\<close> is the number of draws made by the rounds before round \<open>i\<close> of
  the \<^verbatim>\<open>for\<close> loop (two for a correct sector, three for another one), and
  \<open>loop_entry ch rnd i\<close> is the entry that round \<open>i\<close> pushes.
\<close>

primrec draws_before :: "nat list \<Rightarrow> nat \<Rightarrow> nat" where
  "draws_before cs 0 = 0"
| "draws_before cs (Suc i) = draws_before cs i + (if js_includes cs i then 2 else 3)"

definition loop_entry :: "ValidationChallenge \<Rightarrow> random_source \<Rightarrow> nat \<Rightarrow> WatermarkData" where
  "loop_entry ch rnd i =
     (let k = draws_before (correctSectors ch) i;
          inCorrect = js_includes (correctSectors ch) i;
          k1 = (if inCorrect then k else k + 1)
      in \<lparr>sector = i,
          wshape = shapes ! floor_times (rnd k1) (length shapes),
          wcolor = colors ! floor_times (rnd (k1 + 1)) (length colors),
          hasWatermark = (inCorrect \<or> less_0_3 (rnd k))\<rparr>)"

section \<open>The invariant of the session\<close>

text \<open>
  Outside the result step neither flag is set and no call has been made; in the result
  step the session is in exactly one of three situations: succeeded with its one call,
  blocked with its one call, or failed with attempts left and no call.
\<close>

definition session_inv :: "int \<Rightarrow> session \<Rightarrow> bool" where
  "session_inv maxAttempts c =
     (case c of (st, calls) \<Rightarrow>
        (case currentStep st of
           Result \<Rightarrow>
             (validationSuccess st \<and> \<not> isBlocked st \<and> calls = [(True, attemptCount st)]) \<or>
             (\<not> validationSuccess st \<and> isBlocked st \<and> calls = [(False, attemptCount st)]) \<or>
             (\<not> validationSuccess st \<and> \<not> isBlocked st \<and> calls = [] \<and>
                attemptCount st < maxAttempts)
         | _ \<Rightarrow> \<not> validationSuccess st \<and> \<not> isBlocked st \<and> calls = []))"

section \<open>Sample inputs\<close>

text \<open>
  A random source whose draws number 2 and 3 are 1/8 and 5/8, the sectors 2 and 10 (all
  other draws are 0), a
  captured frame, the challenge that \<^verbatim>\<open>handleCameraCapture\<close> builds from that source, and
  the state in which that challenge awaits a selection after \<open>n\<close> attempts.
\<close>

definition sample_source :: random_source where
  "sample_source k = Abs_unit_draw (if k = 2 then (1, 3) else if k = 3 then (5, 3) else (0, 0))"

definition sample_data :: CapturedData where
  "sample_data = \<lparr>imageData = ''data:image/jpeg;base64,'',
     squarePosition = \<lparr>x = 150, y = 150, size = 100\<rparr>\<rparr>"

definition sample_challenge :: ValidationChallenge where
  "sample_challenge = \<lparr>shape = Triangle, color = None, correctSectors = [10, 2]\<rparr>"

definition selecting :: "int \<Rightarrow> CaptchaState" where
  "selecting n = \<lparr>currentStep = Validation, capturedData = Some sample_data,
     challenge = Some sample_challenge, validationSuccess = False, attemptCount = n,
     isBlocked = False\<rparr>"

section \<open>Properties of the scoring computation\<close>

lemma isCorrect_iff_length_set:
  "isCorrect S C = (length S = length C \<and> set S = set C)"
  by (auto simp: isCorrect_def js_every_def js_includes_def list_all_iff)

lemma same_set_same_length_distinct:
  assumes "distinct C" and "set S = set C" and "length S = length C"
  shows "distinct S"
proof -
  from assms(1) have "card (set C) = length C" by (rule distinct_card)
  with assms(2,3) have "card (set S) = length S" by simp
  then show ?thesis by (rule card_distinct)
qed

lemma handleSectorClick_distinct:
  "distinct prev \<Longrightarrow> distinct (handleSectorClick sectorIndex prev)"
  by (simp add: handleSectorClick_def js_includes_def)

lemma fold_handleSectorClick_distinct:
  "distinct prev \<Longrightarrow> distinct (fold handleSectorClick clicks prev)"
  by (induction clicks arbitrary: prev) (simp_all add: handleSectorClick_distinct)

lemma selectedSectors_after_distinct: "distinct (selectedSectors_after clicks)"
  by (simp add: selectedSectors_after_def fold_handleSectorClick_distinct)

lemma isCorrect_distinct_iff:
  assumes "distinct C" and "distinct S"
  shows "isCorrect S C = (set S = set C)"
proof
  assume "isCorrect S C"
  then show "set S = set C" by (simp add: isCorrect_iff_length_set)
next
  assume eq: "set S = set C"
  from assms(2) have "length S = card (set S)" by (simp add: distinct_card)
  also from eq have "\<dots> = card (set C)" by simp
  also from assms(1) have "\<dots> = length C" by (rule distinct_card)
  finally show "isCorrect S C" using eq by (simp add: isCorrect_iff_length_set)
qed

text \<open>
  C1. The score is true exactly when the submitted list and the correct list have the same
  length and each one's elements all occur in the other. A true score therefore needs the
  same elements: a submission that adds, omits or substitutes an element of the correct set
  scores false. For duplicate-free lists, and so for every list that clicks on the grid can
  build (\<^verbatim>\<open>handleSectorClick\<close> toggles), the score is true if and only if the submitted
  sectors equal the correct sectors as a set.
\<close>

theorem isCorrect_set_equality:
  "(isCorrect S C \<longleftrightarrow>
      length S = length C \<and> (\<forall>s\<in>set S. s \<in> set C) \<and> (\<forall>c\<in>set C. c \<in> set S)) \<and>
   (isCorrect S C \<longrightarrow> set S = set C) \<and>
   (distinct C \<longrightarrow> distinct S \<longrightarrow> isCorrect S C = (set S = set C)) \<and>
   (distinct C \<longrightarrow>
      isCorrect (selectedSectors_after clicks) C = (set (selectedSectors_after clicks) = set C))"
proof (intro conjI impI)
  show "isCorrect S C \<longleftrightarrow>
      length S = length C \<and> (\<forall>s\<in>set S. s \<in> set C) \<and> (\<forall>c\<in>set C. c \<in> set S)"
    by (simp add: isCorrect_def js_every_def js_includes_def list_all_iff)
  show "isCorrect S C \<Longrightarrow> set S = set C"
    by (simp add: isCorrect_iff_length_set)
  show "distinct C \<Longrightarrow> distinct S \<Longrightarrow> isCorrect S C = (set S = set C)"
    by (rule isCorrect_distinct_iff)
  show "distinct C \<Longrightarrow>
      isCorrect (selectedSectors_after clicks) C = (set (selectedSectors_after clicks) = set C)"
    using selectedSectors_after_distinct by (rule isCorrect_distinct_iff [rotated])
qed

lemma clicks_sample: "selectedSectors_after [2, 5, 7, 9, 7, 13] = [2, 5, 9, 13]"
  by (simp add: selectedSectors_after_def handleSectorClick_def js_includes_def)

theorem isCorrect_set_equality_witness:
  "distinct [2, 5, 9, 13 :: nat] \<and> distinct [13, 2, 9, 5 :: nat] \<and>
   isCorrect [13, 2, 9, 5] [2, 5, 9, 13] \<and>
   selectedSectors_after [2, 5, 7, 9, 7, 13] = [2, 5, 9, 13] \<and>
   isCorrect (selectedSectors_after [2, 5, 7, 9, 7, 13]) [2, 5, 9, 13] \<and>
   \<not> isCorrect [2, 5, 9] [2, 5, 9, 13] \<and> \<not> isCorrect [2, 5, 9, 13, 0] [2, 5, 9, 13]"
proof -
  have dC: "distinct [2, 5, 9, 13 :: nat]" and dS: "distinct [13, 2, 9, 5 :: nat]" by simp_all
  have same: "set [13, 2, 9, 5 :: nat] = set [2, 5, 9, 13]" by auto
  have "(13::nat) \<in> set [2, 5, 9, 13]" and "(13::nat) \<notin> set [2, 5, 9]" by simp_all
  then have fewer: "set [2, 5, 9 :: nat] \<noteq> set [2, 5, 9, 13]" by metis
  have "(0::nat) \<notin> set [2, 5, 9, 13]" and "(0::nat) \<in> set [2, 5, 9, 13, 0]" by simp_all
  then have more: "set [2, 5, 9, 13, 0 :: nat] \<noteq> set [2, 5, 9, 13]" by metis
  note at_S = isCorrect_set_equality [of "[13, 2, 9, 5]" "[2, 5, 9, 13]" "[2, 5, 7, 9, 7, 13]"]
  from at_S dC dS same have a: "isCorrect [13, 2, 9, 5] [2, 5, 9, 13]" by blast
  from at_S dC have b: "isCorrect (selectedSectors_after [2, 5, 7, 9, 7, 13]) [2, 5, 9, 13]"
    by (simp add: clicks_sample)
  from isCorrect_set_equality [of "[2, 5, 9]" "[2, 5, 9, 13]" "[]"] fewer
  have c: "\<not> isCorrect [2, 5, 9] [2, 5, 9, 13]" by blast
  from isCorrect_set_equality [of "[2, 5, 9, 13, 0]" "[2, 5, 9, 13]" "[]"] more
  have d: "\<not> isCorrect [2, 5, 9, 13, 0] [2, 5, 9, 13]" by blast
  from dC dS a b c d clicks_sample show ?thesis by blast
qed

text \<open>
  C10. When the correct list has no duplicate and the submitted list has one, the score
  is false, whatever the distinct elements of the submission are.
\<close>

theorem isCorrect_rejects_duplicates:
  "distinct C \<Longrightarrow> \<not> distinct S \<Longrightarrow> \<not> isCorrect S C"
  using same_set_same_length_distinct [of C S] by (auto simp: isCorrect_iff_length_set)

theorem isCorrect_rejects_duplicates_witness:
  "distinct [2, 5 :: nat] \<and> \<not> distinct [2, 5, 5 :: nat] \<and> set [2, 5, 5 :: nat] = set [2, 5] \<and>
   \<not> isCorrect [2, 5, 5] [2, 5]"
  using isCorrect_rejects_duplicates [of "[2, 5]" "[2, 5, 5]"] by simp

section \<open>Double arithmetic of the draws\<close>

lemma unit_draw_bounds:
  "mantissa d < 2 ^ 53" "exponent d \<le> 1074" "mantissa d < 2 ^ exponent d"
  using Rep_unit_draw [of d]
  by (simp_all add: mantissa_def exponent_def is_unit_double_def split: prod.splits)

lemma excess_bits_le: "p < 2 ^ 53 * 2 ^ k \<Longrightarrow> excess_bits p \<le> k"
proof (induction k arbitrary: p)
  case 0
  then show ?case by (simp add: excess_bits.simps)
next
  case (Suc k)
  show ?case
  proof (cases "p < 2 ^ 53")
    case True
    then show ?thesis by (simp add: excess_bits.simps)
  next
    case False
    from Suc.prems have "p < 2 * (2 ^ 53 * 2 ^ k)" by simp
    then have "p div 2 < 2 ^ 53 * 2 ^ k" by linarith
    from Suc.IH [OF this] False show ?thesis
      by (subst excess_bits.simps) simp
  qed
qed

lemma excess_bits_lower: "2 ^ 53 \<le> p \<Longrightarrow> 2 ^ 52 * 2 ^ excess_bits p \<le> p"
proof (induction p rule: excess_bits.induct)
  case (1 p)
  then have big: "\<not> p < 2 ^ 53" by simp
  show ?case
  proof (cases "p div 2 < 2 ^ 53")
    case True
    then have "excess_bits (p div 2) = 0" by (simp add: excess_bits.simps)
    with big have "excess_bits p = 1" by (subst excess_bits.simps) simp
    with "1.prems" show ?thesis by simp
  next
    case False
    then have "2 ^ 52 * 2 ^ excess_bits (p div 2) \<le> p div 2"
      using "1.IH" [OF big] by simp
    then have "2 * (2 ^ 52 * 2 ^ excess_bits (p div 2)) \<le> p" by linarith
    moreover from big have "excess_bits p = Suc (excess_bits (p div 2))"
      by (subst excess_bits.simps) simp
    ultimately show ?thesis by simp
  qed
qed

lemma round_half_even_error:
  "2 * \<bar>int (round_half_even p b * 2 ^ b) - int p\<bar> \<le> int (2 ^ b)"
proof -
  define B :: nat where "B = 2 ^ b"
  define t where "t = p div B"
  define r where "r = p mod B"
  define d where "d = int (round_half_even p b * B) - int p"
  have B: "0 < B" by (simp add: B_def)
  have p: "p = t * B + r"
    unfolding t_def r_def by (rule div_mult_mod_eq [symmetric])
  have r: "r < B" using B by (simp add: r_def)
  have "2 * \<bar>d\<bar> \<le> int B"
  proof (cases "B < 2 * r \<or> (2 * r = B \<and> odd t)")
    case True
    then have "round_half_even p b = t + 1"
      by (simp add: round_half_even_def t_def r_def B_def Let_def)
    then have "d = int B - int r"
      by (simp add: d_def p algebra_simps)
    moreover from True have "B \<le> 2 * r" by auto
    ultimately show ?thesis using r by linarith
  next
    case False
    then have "round_half_even p b = t"
      by (simp add: round_half_even_def t_def r_def B_def Let_def)
    then have "d = - int r"
      by (simp add: d_def p)
    moreover from False have "2 * r \<le> B" by auto
    ultimately show ?thesis by linarith
  qed
  then show ?thesis by (simp add: d_def B_def)
qed

lemma round_half_even_exact: "2 ^ b dvd p \<Longrightarrow> round_half_even p b * 2 ^ b = p"
  by (auto simp: round_half_even_def Let_def mod_eq_0_iff_dvd)

lemma round53_exact_below: "p < 2 ^ 53 \<Longrightarrow> round53 p = p"
  by (simp add: round53_def excess_bits.simps round_half_even_def)

lemma round53_error: "2 ^ 53 * \<bar>int (round53 p) - int p\<bar> \<le> int p"
proof (cases "p < 2 ^ 53")
  case True
  then show ?thesis by (simp add: round53_exact_below)
next
  case False
  define B :: nat where "B = 2 ^ excess_bits p"
  define err where "err = \<bar>int (round53 p) - int p\<bar>"
  from False have "2 ^ 52 * B \<le> p" unfolding B_def by (intro excess_bits_lower) simp
  then have "int (2 ^ 52 * B) \<le> int p" by (simp only: of_nat_le_iff)
  then have low: "4503599627370496 * int B \<le> int p" by simp
  have "2 * err \<le> int B"
    using round_half_even_error [of p "excess_bits p"]
    by (simp add: round53_def B_def err_def Let_def)
  with low have "9007199254740992 * err \<le> int p" by linarith
  then show ?thesis by (simp add: err_def)
qed

lemma round53_exact_pow2:
  assumes "m < 2 ^ 53"
  shows "round53 (m * 2 ^ k) = m * 2 ^ k"
proof -
  from assms have "m * 2 ^ k < 2 ^ 53 * 2 ^ k" by simp
  then have "excess_bits (m * 2 ^ k) \<le> k" by (rule excess_bits_le)
  then have "(2::nat) ^ excess_bits (m * 2 ^ k) dvd 2 ^ k" by (rule le_imp_power_dvd)
  then have "2 ^ excess_bits (m * 2 ^ k) dvd m * 2 ^ k" by (rule dvd_mult)
  then show ?thesis by (simp add: round53_def Let_def round_half_even_exact)
qed

lemma floor_times_pow2: "floor_times d (2 ^ k) = (mantissa d * 2 ^ k) div 2 ^ exponent d"
  using round53_exact_pow2 [OF unit_draw_bounds(1), of d k] by (simp add: floor_times_def)

lemma round53_near:
  assumes m: "m < 2 ^ 53" and n: "0 < n"
  shows "\<bar>int (round53 (m * n)) - int (m * n)\<bar> < int n"
proof -
  define err where "err = \<bar>int (round53 (m * n)) - int (m * n)\<bar>"
  have "2 ^ 53 * err \<le> int (m * n)" unfolding err_def by (rule round53_error)
  moreover from m n have "m * n < 2 ^ 53 * n" by simp
  then have "int (m * n) < int (2 ^ 53 * n)" by (simp only: of_nat_less_iff)
  ultimately have "2 ^ 53 * err < 2 ^ 53 * int n" by simp
  then show ?thesis by (simp add: err_def)
qed

lemma floor_times_less: "0 < n \<Longrightarrow> floor_times d n < n"
proof -
  assume n: "0 < n"
  define m where "m = mantissa d"
  define E :: nat where "E = 2 ^ exponent d"
  define R where "R = round53 (m * n)"
  have m: "m < 2 ^ 53" "m < E"
    using unit_draw_bounds [of d] by (simp_all add: m_def E_def)
  from round53_near [OF m(1) n] have "int R < int (m * n) + int n"
    by (simp add: R_def)
  then have "R < m * n + n" by linarith
  also have "\<dots> = Suc m * n" by simp
  also from m(2) have "\<dots> \<le> E * n" by (intro mult_le_mono1) simp
  finally have "R < n * E" by (simp add: mult.commute)
  then have "R div E < n" by (rule less_mult_imp_div_less)
  then show ?thesis by (simp add: floor_times_def R_def m_def E_def)
qed

lemma draw_value_bounds: "0 \<le> draw_value d" "draw_value d < 1"
  using unit_draw_bounds(3) [of d] by (simp_all add: draw_value_def)

lemma less_0_3_iff: "less_0_3 d = (draw_value d < 5404319552844595 / 2 ^ 54)"
proof -
  have "(draw_value d < 5404319552844595 / 2 ^ 54)
      = (real (mantissa d) * 2 ^ 54 < 5404319552844595 * 2 ^ exponent d)"
    by (simp add: draw_value_def field_simps)
  also have "\<dots> = (real (mantissa d * 2 ^ 54) < real (5404319552844595 * 2 ^ exponent d))"
    by simp
  also have "\<dots> = less_0_3 d"
    unfolding less_0_3_def by (rule of_nat_less_iff)
  finally show ?thesis by simp
qed

lemma floor_times_value:
  "\<bar>real (round53 (mantissa d * 3)) / 2 ^ exponent d - 3 * draw_value d\<bar> < 3 / 2 ^ 53"
proof -
  define m where "m = mantissa d"
  define E :: real where "E = 2 ^ exponent d"
  define R where "R = round53 (m * 3)"
  have E: "0 < E" by (simp add: E_def)
  have m: "real m < E" using unit_draw_bounds(3) [of d]
    unfolding m_def E_def by (metis of_nat_less_iff of_nat_numeral of_nat_power)
  have "real_of_int (2 ^ 53 * \<bar>int R - int (m * 3)\<bar>) \<le> real_of_int (int (m * 3))"
    unfolding R_def by (simp only: of_int_le_iff round53_error)
  then have "2 ^ 53 * \<bar>real R - real m * 3\<bar> \<le> real m * 3" by simp
  also have "\<dots> < E * 3" using m by simp
  finally have "\<bar>real R - real m * 3\<bar> < E * (3 / 2 ^ 53)" by (simp add: field_simps)
  then have lt: "\<bar>real R - real m * 3\<bar> / E < 3 / 2 ^ 53"
    using E by (simp add: field_simps)
  have "(real R - real m * 3) / E = real R / E - 3 * (real m / E)"
    by (simp add: diff_divide_distrib)
  then have "\<bar>real R - real m * 3\<bar> / E = \<bar>real R / E - 3 * (real m / E)\<bar>"
    using E by (metis abs_divide abs_of_pos)
  with lt have "\<bar>real R / E - 3 * (real m / E)\<bar> < 3 / 2 ^ 53" by (simp only:)
  then show ?thesis unfolding R_def m_def E_def draw_value_def .
qed

lemma floor_times_as_floor:
  "int (floor_times d 3) = \<lfloor>real (round53 (mantissa d * 3)) / 2 ^ exponent d\<rfloor>"
proof -
  have "\<lfloor>real (round53 (mantissa d * 3)) / real (2 ^ exponent d)\<rfloor>
      = int (round53 (mantissa d * 3) div 2 ^ exponent d)"
    by (rule floor_divide_of_nat_eq)
  then show ?thesis by (simp add: floor_times_def)
qed

lemma floor_times_value_eps:
  fixes eps :: real
  assumes "eps = 1 / 2 ^ 53"
  shows "real (round53 (mantissa d * 3)) / 2 ^ exponent d - 3 * draw_value d < 3 * eps"
    and "3 * draw_value d - real (round53 (mantissa d * 3)) / 2 ^ exponent d < 3 * eps"
proof -
  define y where "y = real (round53 (mantissa d * 3)) / 2 ^ exponent d"
  have "\<bar>y - 3 * draw_value d\<bar> < 3 * eps"
    using floor_times_value [of d] assms by (simp only: y_def mult_1_right times_divide_eq_right)
  then have "y - 3 * draw_value d < 3 * eps" and "3 * draw_value d - y < 3 * eps"
    by linarith+
  then show "real (round53 (mantissa d * 3)) / 2 ^ exponent d - 3 * draw_value d < 3 * eps"
    and "3 * draw_value d - real (round53 (mantissa d * 3)) / 2 ^ exponent d < 3 * eps"
    by (simp_all only: y_def)
qed

lemma floor_times_third:
  assumes "floor_times d 3 = j"
  shows "real j / 3 - 1 / 2 ^ 53 < draw_value d \<and> draw_value d < (real j + 1) / 3 + 1 / 2 ^ 53"
proof -
  define y where "y = real (round53 (mantissa d * 3)) / 2 ^ exponent d"
  define eps :: real where "eps = 1 / 2 ^ 53"
  from assms have "\<lfloor>y\<rfloor> = int j" by (simp add: y_def floor_times_as_floor [symmetric])
  then have y: "real j \<le> y" "y < real j + 1" by linarith+
  note near = floor_times_value_eps [OF eps_def, of d, folded y_def]
  have split: "(real j + 1) / 3 = real j / 3 + 1 / 3" by (rule add_divide_distrib)
  from y near have "real j / 3 - eps < draw_value d" by linarith
  moreover from y near have "draw_value d < (real j + 1) / 3 + eps"
    unfolding split by linarith
  ultimately show ?thesis unfolding eps_def by (rule conjI)
qed

lemma floor_times_third_inner:
  assumes "real j / 3 + 1 / 2 ^ 53 \<le> draw_value d"
    and "draw_value d + 1 / 2 ^ 53 \<le> (real j + 1) / 3"
  shows "floor_times d 3 = j"
proof -
  define y where "y = real (round53 (mantissa d * 3)) / 2 ^ exponent d"
  define eps :: real where "eps = 1 / 2 ^ 53"
  note near = floor_times_value_eps [OF eps_def, of d, folded y_def]
  from assms have inner: "real j / 3 + eps \<le> draw_value d" "draw_value d + eps \<le> (real j + 1) / 3"
    by (simp_all only: eps_def)
  have split: "(real j + 1) / 3 = real j / 3 + 1 / 3" by (rule add_divide_distrib)
  from inner near have "real j \<le> y" by linarith
  moreover from inner near have "y < real j + 1" unfolding split by linarith
  ultimately have "\<lfloor>y\<rfloor> = int j" by linarith
  then show ?thesis by (simp add: y_def floor_times_as_floor [symmetric])
qed

text \<open>
  Two pairs that stand for the same double give the same results.
\<close>

lemma round_half_even_double: "round_half_even (2 * p) (Suc b) = round_half_even p b"
proof -
  have t: "(2 * p) div 2 ^ Suc b = p div 2 ^ b" by simp
  have r: "(2 * p) mod 2 ^ Suc b = 2 * (p mod 2 ^ b)" by simp
  show ?thesis
    unfolding round_half_even_def t r Let_def by simp
qed

lemma round53_double: "round53 (2 * p) = 2 * round53 p"
proof (cases "2 * p < 2 ^ 53")
  case True
  then have "p < 2 ^ 53" by simp
  with True show ?thesis by (simp add: round53_exact_below)
next
  case False
  then have "excess_bits (2 * p) = Suc (excess_bits p)"
    by (subst excess_bits.simps) simp
  then show ?thesis
    by (simp add: round53_def Let_def round_half_even_double)
qed

lemma round53_pow2: "round53 (2 ^ k * p) = 2 ^ k * round53 p"
proof (induction k)
  case 0
  show ?case by simp
next
  case (Suc k)
  have "round53 (2 ^ Suc k * p) = round53 (2 * (2 ^ k * p))" by (simp add: mult.assoc)
  also have "\<dots> = 2 * round53 (2 ^ k * p)" by (rule round53_double)
  finally show ?case by (simp add: Suc.IH)
qed

lemma floor_rescaled:
  "round53 (m * 2 ^ k * n) div 2 ^ (e + k) = round53 (m * n) div 2 ^ e"
proof -
  have "m * 2 ^ k * n = 2 ^ k * (m * n)" by (simp add: mult_ac)
  then have "round53 (m * 2 ^ k * n) = 2 ^ k * round53 (m * n)" by (simp only: round53_pow2)
  moreover have "(2::nat) ^ (e + k) = 2 ^ k * 2 ^ e" by (simp add: power_add mult.commute)
  ultimately show ?thesis by (simp only: div_mult_mult1_if) simp
qed

lemma same_value_rescaled:
  assumes "real m / 2 ^ e = real m' / 2 ^ (e + k)"
  shows "m' = m * 2 ^ k"
proof -
  from assms have "real m' = real m * 2 ^ k" by (simp add: power_add field_simps)
  also have "\<dots> = real (m * 2 ^ k)" by simp
  finally show ?thesis by (simp only: of_nat_eq_iff)
qed

lemma floor_times_value_only:
  assumes "draw_value d = draw_value d'"
  shows "floor_times d n = floor_times d' n"
proof (cases "exponent d \<le> exponent d'")
  case True
  then obtain k where k: "exponent d' = exponent d + k" by (auto simp: le_iff_add)
  with assms have "mantissa d' = mantissa d * 2 ^ k"
    by (intro same_value_rescaled [of _ "exponent d"]) (simp add: draw_value_def)
  with k show ?thesis by (simp add: floor_times_def floor_rescaled)
next
  case False
  then have "exponent d' \<le> exponent d" by simp
  then obtain k where k: "exponent d = exponent d' + k" by (auto simp: le_iff_add)
  with assms have "mantissa d = mantissa d' * 2 ^ k"
    by (intro same_value_rescaled [of _ "exponent d'"]) (simp add: draw_value_def)
  with k show ?thesis by (simp add: floor_times_def floor_rescaled)
qed

lemma less_0_3_value_only:
  "draw_value d = draw_value d' \<Longrightarrow> less_0_3 d = less_0_3 d'"
  by (simp add: less_0_3_iff)

text \<open>
  Two draws at which rounding decides: the largest double below 2/3 times 3 rounds to 2,
  and the double 0.3 is not below itself.
\<close>

lemma floor_times_below_two_thirds:
  "floor_times (Abs_unit_draw (6004799503160661, 53)) 3 = 2"
  by (simp add: floor_times_def mantissa_def exponent_def Abs_unit_draw_inverse
      is_unit_double_def round53_def round_half_even_def excess_bits.simps Let_def)

lemma less_0_3_at_0_3:
  "\<not> less_0_3 (Abs_unit_draw (5404319552844595, 54))"
  by (simp add: less_0_3_def mantissa_def exponent_def Abs_unit_draw_inverse
      is_unit_double_def)

section \<open>Evaluating the handlers on the sample inputs\<close>

lemma Rep_sample_source:
  "Rep_unit_draw (sample_source k) = (if k = 2 then (1, 3) else if k = 3 then (5, 3) else (0, 0))"
  by (simp add: sample_source_def Abs_unit_draw_inverse is_unit_double_def)

lemma floor_times_sample:
  "floor_times (sample_source k) n =
     (if k = 2 then round53 n div 8 else if k = 3 then round53 (5 * n) div 8 else 0)"
  by (simp add: floor_times_def mantissa_def exponent_def Rep_sample_source round53_exact_below)

lemma less_0_3_sample: "less_0_3 (sample_source k) = (k \<noteq> 3)"
  by (simp add: less_0_3_def mantissa_def exponent_def Rep_sample_source)

lemma draw_value_sample:
  "draw_value (sample_source k) = (if k = 2 then 1 / 8 else if k = 3 then 5 / 8 else 0)"
  by (simp add: draw_value_def mantissa_def exponent_def Rep_sample_source)

lemma newChallenge_sample: "newChallenge False sample_source = Some sample_challenge"
  by (simp add: newChallenge_def shapes_def floor_times_sample round53_exact_below
      fill_correctSectors.simps js_includes_def js_sort_def js_toString_def sample_challenge_def)

lemma handleCameraCapture_sample:
  "handleCameraCapture False sample_source sample_data initial_state = Some (selecting 0)"
  by (simp add: handleCameraCapture_def newChallenge_sample initial_state_def selecting_def)

section \<open>Attempt counting and tolerance\<close>

text \<open>
  C5. A submission with an active challenge adds exactly one to \<open>attemptCount\<close>; no
  handler decreases it; \<^verbatim>\<open>handleRetry\<close> keeps it and clears the captured data and the
  challenge. (\<open>maxAttempts\<close> is a prop of the component: no handler can assign it.)
\<close>

theorem attemptCount_session_wide:
  "(challenge st = Some ch \<longrightarrow>
      attemptCount (fst (handleValidationComplete maxAttempts selectedSectors st))
        = attemptCount st + 1) \<and>
   attemptCount st \<le> attemptCount (fst (handleValidationComplete maxAttempts selectedSectors st)) \<and>
   (handleCameraCapture enableColorTint rnd data st = Some st' \<longrightarrow>
      attemptCount st' = attemptCount st) \<and>
   attemptCount (handleRetry st) = attemptCount st \<and>
   capturedData (handleRetry st) = None \<and> challenge (handleRetry st) = None \<and>
   currentStep (handleRetry st) = Camera"
  by (auto simp: handleValidationComplete_def handleCameraCapture_def handleRetry_def Let_def
      split: option.splits)

theorem attemptCount_session_wide_witness:
  "challenge (selecting 1) = Some sample_challenge \<and>
   attemptCount (fst (handleValidationComplete 3 [0] (selecting 1))) = 2 \<and>
   handleCameraCapture False sample_source sample_data initial_state = Some (selecting 0) \<and>
   attemptCount (selecting 0) = attemptCount initial_state \<and>
   attemptCount (handleRetry (selecting 1)) = 1"
  using attemptCount_session_wide [of "selecting 1" sample_challenge 3 "[0]" False sample_source
      sample_data "selecting 0"]
    attemptCount_session_wide [of initial_state sample_challenge 3 "[0]" False sample_source
      sample_data "selecting 0"]
  by (simp add: selecting_def handleCameraCapture_sample [unfolded selecting_def])

text \<open>
  C7. Without an active challenge \<^verbatim>\<open>handleValidationComplete\<close> changes nothing and calls
  nothing; \<^verbatim>\<open>handleRetry\<close> keeps \<open>attemptCount\<close> in every state, terminal ones included.
\<close>

theorem contract_violations_keep_attemptCount:
  "(challenge st = None \<longrightarrow>
      handleValidationComplete maxAttempts selectedSectors st = (st, [])) \<and>
   attemptCount (handleRetry st') = attemptCount st'"
  by (simp add: handleValidationComplete_def handleRetry_def)

theorem contract_violations_keep_attemptCount_witness:
  "challenge initial_state = None \<and>
   handleValidationComplete 3 [2, 10] initial_state = (initial_state, []) \<and>
   attemptCount (handleRetry (selecting 3)) = 3"
  using contract_violations_keep_attemptCount [of initial_state 3 "[2, 10]" "selecting 3"]
  by (simp add: initial_state_def selecting_def)

text \<open>
  C8. The \<^verbatim>\<open>toleranceLevel\<close> prop handed to \<^verbatim>\<open>ShapeValidation\<close> is
  \<open>max 1 (maxAttempts - attemptCount)\<close>: 1 for 3 and 2, 3 for 3 and 0. Replacing it by any
  other value leaves the result of a submission unchanged.
\<close>

theorem toleranceLevel_derivation:
  "render maxAttempts st = ShapeValidationView props \<Longrightarrow>
   sv_toleranceLevel props = max 1 (maxAttempts - attemptCount st) \<and>
   (maxAttempts = 3 \<and> attemptCount st = 2 \<longrightarrow> sv_toleranceLevel props = 1) \<and>
   (maxAttempts = 3 \<and> attemptCount st = 0 \<longrightarrow> sv_toleranceLevel props = 3) \<and>
   handleValidate (props\<lparr>sv_toleranceLevel := t\<rparr>)
       (\<lambda>sel. handleValidationComplete maxAttempts sel st) selectedSectors
     = handleValidate props (\<lambda>sel. handleValidationComplete maxAttempts sel st) selectedSectors"
  by (auto simp: render_def toleranceLevel_def handleValidate_def
      split: CaptchaStep.splits option.splits)

theorem toleranceLevel_derivation_witness:
  "render 3 (selecting 2)
     = ShapeValidationView \<lparr>sv_capturedData = sample_data, sv_challenge = sample_challenge,
         sv_toleranceLevel = 1\<rparr> \<and>
   sv_toleranceLevel \<lparr>sv_capturedData = sample_data, sv_challenge = sample_challenge,
         sv_toleranceLevel = 1\<rparr> = max 1 (3 - attemptCount (selecting 2))"
proof -
  have r: "render 3 (selecting 2)
     = ShapeValidationView \<lparr>sv_capturedData = sample_data, sv_challenge = sample_challenge,
         sv_toleranceLevel = 1\<rparr>"
    by (simp add: render_def selecting_def toleranceLevel_def)
  from toleranceLevel_derivation [OF r] r show ?thesis by simp
qed


section \<open>The session state machine\<close>

lemma session_inv_initial: "session_inv maxAttempts (initial_state, [])"
  by (simp add: session_inv_def initial_state_def)

lemma session_inv_step:
  assumes "step maxAttempts enableColorTint c c'" and "session_inv maxAttempts c"
  shows "session_inv maxAttempts c'"
  using assms
proof (induction rule: step.induct)
  case (capture st rnd data st' calls)
  then show ?case
    by (auto simp: session_inv_def render_def handleCameraCapture_def
        split: CaptchaStep.splits option.splits)
next
  case (submit st props selectedSectors st' new_calls calls)
  then show ?case
    by (auto simp: session_inv_def render_def handleValidate_def handleValidationComplete_def
        Let_def split: CaptchaStep.splits option.splits if_splits)
next
  case (retry st props calls)
  then show ?case
    by (auto simp: session_inv_def render_def handleRetry_def ValidationResult_def
        split: CaptchaStep.splits option.splits if_splits)
qed

lemma session_inv_reachable:
  "reachable maxAttempts enableColorTint c \<Longrightarrow> session_inv maxAttempts c"
  unfolding reachable_def
  by (induction rule: rtranclp_induct) (auto intro: session_inv_initial session_inv_step)

lemma phase_Success_iff:
  "phase maxAttempts st = Success \<longleftrightarrow> currentStep st = Result \<and> validationSuccess st"
  by (auto simp: phase_def render_def ValidationResult_def
      split: CaptchaStep.splits option.splits)

lemma phase_Blocked_iff:
  "phase maxAttempts st = Blocked \<longleftrightarrow>
     currentStep st = Result \<and> \<not> validationSuccess st \<and> isBlocked st"
  by (auto simp: phase_def render_def ValidationResult_def
      split: CaptchaStep.splits option.splits)

lemma phase_RetryAvailable_iff:
  "phase maxAttempts st = RetryAvailable \<longleftrightarrow>
     currentStep st = Result \<and> \<not> validationSuccess st \<and> \<not> isBlocked st \<and>
     attemptCount st < maxAttempts"
  by (auto simp: phase_def render_def ValidationResult_def canRetry_def
      split: CaptchaStep.splits option.splits)

lemma terminal_no_step:
  assumes "currentStep st = Result" and "validationSuccess st \<or> isBlocked st"
  shows "\<not> step maxAttempts enableColorTint (st, calls) c'"
proof
  assume "step maxAttempts enableColorTint (st, calls) c'"
  then show False
    using assms
    by (cases rule: step.cases)
       (auto simp: render_def ValidationResult_def canRetry_def
         split: CaptchaStep.splits option.splits if_splits)
qed

lemma terminal_stays:
  assumes "(step maxAttempts enableColorTint)\<^sup>*\<^sup>* (st, calls) c'"
    and "currentStep st = Result" and "validationSuccess st \<or> isBlocked st"
  shows "c' = (st, calls)"
  using assms(1)
proof (cases rule: converse_rtranclpE)
  case base
  then show ?thesis by simp
next
  case (step y)
  with terminal_no_step [OF assms(2,3)] show ?thesis by blast
qed


lemma step_capture:
  "currentStep st = Camera \<Longrightarrow> handleCameraCapture enableColorTint rnd data st = Some st' \<Longrightarrow>
   step maxAttempts enableColorTint (st, calls) (st', calls)"
  by (rule step.capture [where rnd = rnd and data = data]) (simp_all add: render_def)

lemma step_submit:
  assumes "currentStep st = Validation" and "capturedData st = Some d"
    and "challenge st = Some ch"
    and "handleValidationComplete maxAttempts selectedSectors st = (st', out)"
  shows "step maxAttempts enableColorTint (st, calls) (st', calls @ out)"
proof (rule step.submit)
  show "render maxAttempts st = ShapeValidationView
      \<lparr>sv_capturedData = d, sv_challenge = ch,
       sv_toleranceLevel = toleranceLevel maxAttempts (attemptCount st)\<rparr>"
    using assms(1-3) by (simp add: render_def)
  show "handleValidate
      \<lparr>sv_capturedData = d, sv_challenge = ch,
       sv_toleranceLevel = toleranceLevel maxAttempts (attemptCount st)\<rparr>
      (\<lambda>sel. handleValidationComplete maxAttempts sel st) selectedSectors = (st', out)"
    using assms(4) by (simp add: handleValidate_def)
qed

lemma step_retry:
  assumes "currentStep st = Result" and "\<not> validationSuccess st" and "\<not> isBlocked st"
    and "attemptCount st < maxAttempts"
  shows "step maxAttempts enableColorTint (st, calls) (handleRetry st, calls)"
  by (rule step.retry [where props = "\<lparr>vr_success = validationSuccess st,
        vr_isBlocked = isBlocked st, vr_attemptCount = attemptCount st,
        vr_maxAttempts = maxAttempts, vr_canRetry = canRetry maxAttempts st\<rparr>"])
     (use assms in \<open>simp_all add: render_def ValidationResult_def canRetry_def\<close>)

lemma capture_fields:
  assumes "handleCameraCapture enableColorTint rnd data st = Some st'"
  shows "attemptCount st' = attemptCount st" "isBlocked st' = isBlocked st"
    "validationSuccess st' = validationSuccess st" "currentStep st' = Validation"
    "capturedData st' = Some data" "\<exists>ch. challenge st' = Some ch"
  using assms by (auto simp: handleCameraCapture_def split: option.splits)

lemma wrong_submit_fields:
  assumes "challenge st = Some ch" and "\<not> isCorrect selectedSectors (correctSectors ch)"
    and "handleValidationComplete maxAttempts selectedSectors st = (st', out)"
  shows "attemptCount st' = attemptCount st + 1" "\<not> validationSuccess st'"
    "currentStep st' = Result"
    "attemptCount st + 1 < maxAttempts \<Longrightarrow> isBlocked st' = isBlocked st \<and> out = []"
    "maxAttempts \<le> attemptCount st + 1 \<Longrightarrow> isBlocked st' \<and> out = [(False, attemptCount st + 1)]"
  using assms by (auto simp: handleValidationComplete_def Let_def split: if_splits)

lemma right_submit_fields:
  assumes "challenge st = Some ch" and "isCorrect selectedSectors (correctSectors ch)"
    and "handleValidationComplete maxAttempts selectedSectors st = (st', out)"
  shows "attemptCount st' = attemptCount st + 1" "validationSuccess st'"
    "currentStep st' = Result" "isBlocked st' = isBlocked st"
    "out = [(True, attemptCount st + 1)]"
  using assms by (auto simp: handleValidationComplete_def Let_def split: if_splits)

lemma retry_fields:
  "attemptCount (handleRetry st) = attemptCount st" "isBlocked (handleRetry st) = isBlocked st"
  "\<not> validationSuccess (handleRetry st)" "currentStep (handleRetry st) = Camera"
  by (simp_all add: handleRetry_def)

lemma initial_fields:
  "attemptCount initial_state = 0" "\<not> isBlocked initial_state"
  "\<not> validationSuccess initial_state" "currentStep initial_state = Camera"
  by (simp_all add: initial_state_def)

lemma reachable_step:
  "reachable maxAttempts enableColorTint c \<Longrightarrow> step maxAttempts enableColorTint c c' \<Longrightarrow>
   reachable maxAttempts enableColorTint c'"
  unfolding reachable_def by (rule rtranclp.rtrancl_into_rtrancl)

lemma reachable_initial: "reachable maxAttempts enableColorTint (initial_state, [])"
  unfolding reachable_def by (rule rtranclp.rtrancl_refl)

text \<open>
  C2. With \<open>maxAttempts = 3\<close>, a capture and a wrong submission, a retry, a second capture
  and wrong submission, a retry, a third capture and wrong submission give the phases
  retry-available, retry-available and blocked; the only \<^verbatim>\<open>onComplete\<close> call of the run is
  \<open>(false, 3)\<close>, made by the third submission. The run is one the user interface allows.
\<close>

theorem three_failures_block:
  assumes cap1: "handleCameraCapture enableColorTint r1 d1 initial_state = Some a1"
    and ch1: "challenge a1 = Some c1" and wrong1: "\<not> isCorrect x1 (correctSectors c1)"
    and sub1: "handleValidationComplete 3 x1 a1 = (b1, o1)"
    and cap2: "handleCameraCapture enableColorTint r2 d2 (handleRetry b1) = Some a2"
    and ch2: "challenge a2 = Some c2" and wrong2: "\<not> isCorrect x2 (correctSectors c2)"
    and sub2: "handleValidationComplete 3 x2 a2 = (b2, o2)"
    and cap3: "handleCameraCapture enableColorTint r3 d3 (handleRetry b2) = Some a3"
    and ch3: "challenge a3 = Some c3" and wrong3: "\<not> isCorrect x3 (correctSectors c3)"
    and sub3: "handleValidationComplete 3 x3 a3 = (b3, o3)"
  shows "phase 3 b1 = RetryAvailable \<and> phase 3 b2 = RetryAvailable \<and> phase 3 b3 = Blocked \<and>
         o1 = [] \<and> o2 = [] \<and> o3 = [(False, 3)] \<and>
         reachable 3 enableColorTint (b3, o1 @ o2 @ o3)"
proof -
  note a1 = capture_fields [OF cap1] initial_fields
  note b1 = wrong_submit_fields [OF ch1 wrong1 sub1]
  have b1': "attemptCount b1 = 1" "\<not> isBlocked b1" "o1 = []"
    using a1 b1 by simp_all
  note a2 = capture_fields [OF cap2] retry_fields [of b1]
  note b2 = wrong_submit_fields [OF ch2 wrong2 sub2]
  have b2': "attemptCount b2 = 2" "\<not> isBlocked b2" "o2 = []"
    using a2 b2 b1' by simp_all
  note a3 = capture_fields [OF cap3] retry_fields [of b2]
  note b3 = wrong_submit_fields [OF ch3 wrong3 sub3]
  have b3': "attemptCount b3 = 3" "isBlocked b3" "o3 = [(False, 3)]"
    using a3 b3 b2' by simp_all
  have p1: "phase 3 b1 = RetryAvailable"
    using b1 b1' by (simp add: phase_RetryAvailable_iff)
  have p2: "phase 3 b2 = RetryAvailable"
    using b2 b2' by (simp add: phase_RetryAvailable_iff)
  have p3: "phase 3 b3 = Blocked"
    using b3 b3' by (simp add: phase_Blocked_iff)
  have s1: "reachable 3 enableColorTint (a1, [])"
    using reachable_initial step_capture [OF initial_fields(4) cap1] by (rule reachable_step)
  have s2: "reachable 3 enableColorTint (b1, [] @ o1)"
    using s1 step_submit [OF a1(4,5) ch1 sub1] by (rule reachable_step)
  have s3: "reachable 3 enableColorTint (handleRetry b1, [])"
    using s2 step_retry [OF b1(3,2) b1'(2), of 3] b1' by (auto intro: reachable_step)
  have s4: "reachable 3 enableColorTint (a2, [])"
    using s3 step_capture [OF retry_fields(4) cap2] by (rule reachable_step)
  have s5: "reachable 3 enableColorTint (b2, [] @ o2)"
    using s4 step_submit [OF a2(4,5) ch2 sub2] by (rule reachable_step)
  have s6: "reachable 3 enableColorTint (handleRetry b2, [])"
    using s5 step_retry [OF b2(3,2) b2'(2), of 3] b2' by (auto intro: reachable_step)
  have s7: "reachable 3 enableColorTint (a3, [])"
    using s6 step_capture [OF retry_fields(4) cap3] by (rule reachable_step)
  have s8: "reachable 3 enableColorTint (b3, [] @ o3)"
    using s7 step_submit [OF a3(4,5) ch3 sub3] by (rule reachable_step)
  show ?thesis using p1 p2 p3 b1' b2' b3' s8 by simp
qed


lemma wrong_sample: "\<not> isCorrect [0] (correctSectors sample_challenge)"
  by (simp add: isCorrect_iff_length_set sample_challenge_def)

lemma right_sample: "isCorrect [2, 10] (correctSectors sample_challenge)"
  by (auto simp: isCorrect_iff_length_set sample_challenge_def)

lemma challenge_selecting: "challenge (selecting n) = Some sample_challenge"
  by (simp add: selecting_def)

lemma capture_after_failure:
  "n + 1 < 3 \<Longrightarrow>
   handleCameraCapture False sample_source sample_data
     (handleRetry (fst (handleValidationComplete 3 [0] (selecting n)))) = Some (selecting (n + 1))"
  using wrong_sample
  by (simp add: handleCameraCapture_def newChallenge_sample handleRetry_def
      handleValidationComplete_def selecting_def)

theorem three_failures_block_witness:
  "handleCameraCapture False sample_source sample_data initial_state = Some (selecting 0) \<and>
   \<not> isCorrect [0] (correctSectors sample_challenge) \<and>
   phase 3 (fst (handleValidationComplete 3 [0] (selecting 0))) = RetryAvailable \<and>
   phase 3 (fst (handleValidationComplete 3 [0] (selecting 1))) = RetryAvailable \<and>
   phase 3 (fst (handleValidationComplete 3 [0] (selecting 2))) = Blocked \<and>
   snd (handleValidationComplete 3 [0] (selecting 0)) = [] \<and>
   snd (handleValidationComplete 3 [0] (selecting 1)) = [] \<and>
   snd (handleValidationComplete 3 [0] (selecting 2)) = [(False, 3)]"
proof -
  have c2: "handleCameraCapture False sample_source sample_data
     (handleRetry (fst (handleValidationComplete 3 [0] (selecting 0)))) = Some (selecting 1)"
    using capture_after_failure [of 0] by simp
  have c3: "handleCameraCapture False sample_source sample_data
     (handleRetry (fst (handleValidationComplete 3 [0] (selecting 1)))) = Some (selecting 2)"
    using capture_after_failure [of 1] by simp
  have pair: "\<And>n. handleValidationComplete 3 [0] (selecting n)
      = (fst (handleValidationComplete 3 [0] (selecting n)),
         snd (handleValidationComplete 3 [0] (selecting n)))"
    by simp
  from three_failures_block [OF handleCameraCapture_sample challenge_selecting wrong_sample pair
      c2 challenge_selecting wrong_sample pair c3 challenge_selecting wrong_sample pair]
  show ?thesis using handleCameraCapture_sample wrong_sample by simp
qed

text \<open>
  C4. In every reachable session the list of \<^verbatim>\<open>onComplete\<close> calls is empty before a
  terminal phase and holds exactly one call in one: \<open>(true, attemptCount)\<close> in phase success,
  \<open>(false, attemptCount)\<close> in phase blocked. A step that adds a call ends in success or
  blocked, and no step leaves these two phases. In particular, with \<open>maxAttempts = 3\<close>, a
  correct first submission gives phase success and the single call \<open>(true, 1)\<close>, after which
  no step is possible.
\<close>

theorem onComplete_exactly_once:
  "(reachable maxAttempts enableColorTint (st, calls) \<longrightarrow>
      (phase maxAttempts st = Success \<longrightarrow> calls = [(True, attemptCount st)]) \<and>
      (phase maxAttempts st = Blocked \<longrightarrow> calls = [(False, attemptCount st)]) \<and>
      (phase maxAttempts st \<noteq> Success \<and> phase maxAttempts st \<noteq> Blocked \<longrightarrow> calls = []) \<and>
      (phase maxAttempts st = Success \<or> phase maxAttempts st = Blocked \<longrightarrow>
         (\<forall>c'. \<not> step maxAttempts enableColorTint (st, calls) c')) \<and>
      (\<forall>st' calls'. step maxAttempts enableColorTint (st, calls) (st', calls') \<and> calls' \<noteq> calls \<longrightarrow>
         phase maxAttempts st' = Success \<or> phase maxAttempts st' = Blocked)) \<and>
   (handleCameraCapture enableColorTint rnd data initial_state = Some st1 \<and>
    challenge st1 = Some ch \<and> isCorrect selectedSectors (correctSectors ch) \<and>
    handleValidationComplete 3 selectedSectors st1 = (st2, out) \<longrightarrow>
      phase 3 st2 = Success \<and> out = [(True, 1)] \<and> reachable 3 enableColorTint (st2, out) \<and>
      (\<forall>c'. \<not> step 3 enableColorTint (st2, out) c'))"
proof (rule conjI; rule impI; intro conjI)
  assume r: "reachable maxAttempts enableColorTint (st, calls)"
  then have inv: "session_inv maxAttempts (st, calls)" by (rule session_inv_reachable)
  show "phase maxAttempts st = Success \<longrightarrow> calls = [(True, attemptCount st)]"
    using inv by (auto simp: phase_Success_iff session_inv_def)
  show "phase maxAttempts st = Blocked \<longrightarrow> calls = [(False, attemptCount st)]"
    using inv by (auto simp: phase_Blocked_iff session_inv_def)
  show "phase maxAttempts st \<noteq> Success \<and> phase maxAttempts st \<noteq> Blocked \<longrightarrow> calls = []"
    using inv
    by (auto simp: phase_Success_iff phase_Blocked_iff session_inv_def split: CaptchaStep.splits)
  show "phase maxAttempts st = Success \<or> phase maxAttempts st = Blocked \<longrightarrow>
         (\<forall>c'. \<not> step maxAttempts enableColorTint (st, calls) c')"
    by (auto simp: phase_Success_iff phase_Blocked_iff dest: terminal_no_step)
  show "\<forall>st' calls'. step maxAttempts enableColorTint (st, calls) (st', calls') \<and> calls' \<noteq> calls \<longrightarrow>
         phase maxAttempts st' = Success \<or> phase maxAttempts st' = Blocked"
  proof (intro allI impI)
    fix st' calls'
    assume h: "step maxAttempts enableColorTint (st, calls) (st', calls') \<and> calls' \<noteq> calls"
    then have "session_inv maxAttempts (st', calls')"
      using inv session_inv_step by blast
    moreover have "session_inv maxAttempts (st, calls)" by (rule inv)
    moreover from h have "calls' \<noteq> calls" ..
    ultimately show "phase maxAttempts st' = Success \<or> phase maxAttempts st' = Blocked"
      using h
      by (auto simp: phase_Success_iff phase_Blocked_iff session_inv_def
          split: CaptchaStep.splits dest: terminal_no_step)
  qed
next
  assume h: "handleCameraCapture enableColorTint rnd data initial_state = Some st1 \<and>
    challenge st1 = Some ch \<and> isCorrect selectedSectors (correctSectors ch) \<and>
    handleValidationComplete 3 selectedSectors st1 = (st2, out)"
  then have cap: "handleCameraCapture enableColorTint rnd data initial_state = Some st1"
    and ch: "challenge st1 = Some ch" and ok: "isCorrect selectedSectors (correctSectors ch)"
    and sub: "handleValidationComplete 3 selectedSectors st1 = (st2, out)"
    by simp_all
  note a = capture_fields [OF cap] initial_fields
  note b = right_submit_fields [OF ch ok sub]
  show p: "phase 3 st2 = Success" using b by (simp add: phase_Success_iff)
  show o: "out = [(True, 1)]" using a b by simp
  have "reachable 3 enableColorTint (st1, [])"
    using reachable_initial step_capture [OF initial_fields(4) cap] by (rule reachable_step)
  then have "reachable 3 enableColorTint (st2, [] @ out)"
    using step_submit [OF a(4,5) ch sub] by (rule reachable_step)
  then show "reachable 3 enableColorTint (st2, out)" by simp
  show "\<forall>c'. \<not> step 3 enableColorTint (st2, out) c'"
    using b by (auto dest: terminal_no_step)
qed


theorem onComplete_exactly_once_witness:
  "handleCameraCapture False sample_source sample_data initial_state = Some (selecting 0) \<and>
   isCorrect [2, 10] (correctSectors sample_challenge) \<and>
   reachable 3 False (fst (handleValidationComplete 3 [2, 10] (selecting 0)), [(True, 1)]) \<and>
   phase 3 (fst (handleValidationComplete 3 [2, 10] (selecting 0))) = Success \<and>
   snd (handleValidationComplete 3 [2, 10] (selecting 0)) = [(True, 1)] \<and>
   attemptCount (fst (handleValidationComplete 3 [2, 10] (selecting 0))) = 1 \<and>
   (\<forall>c'. \<not> step 3 False (fst (handleValidationComplete 3 [2, 10] (selecting 0)), [(True, 1)]) c')"
proof -
  define fin where "fin = fst (handleValidationComplete 3 [2, 10] (selecting 0))"
  define out where "out = snd (handleValidationComplete 3 [2, 10] (selecting 0))"
  have sub: "handleValidationComplete 3 [2, 10] (selecting 0) = (fin, out)"
    by (simp add: fin_def out_def)
  from onComplete_exactly_once [of 3 False fin "[(True, 1)]" sample_source sample_data
      "selecting 0" sample_challenge "[2, 10]" fin out]
    handleCameraCapture_sample challenge_selecting right_sample sub
  have first: "phase 3 fin = Success" "out = [(True, 1)]" "reachable 3 False (fin, out)"
    and "reachable 3 False (fin, [(True, 1)]) \<longrightarrow>
      (phase 3 fin = Success \<longrightarrow> [(True, 1)] = [(True, attemptCount fin)]) \<and>
      (phase 3 fin = Success \<or> phase 3 fin = Blocked \<longrightarrow>
         (\<forall>c'. \<not> step 3 False (fin, [(True, 1)]) c'))"
    by blast+
  then show ?thesis
    using handleCameraCapture_sample right_sample
    unfolding fin_def [symmetric] out_def [symmetric] by simp
qed

lemma reachable_sample_success:
  "reachable 3 False (fst (handleValidationComplete 3 [2, 10] (selecting 0)), [(True, 1)])"
proof -
  have cap: "reachable 3 False (selecting 0, [])"
    using reachable_initial step_capture [OF initial_fields(4) handleCameraCapture_sample]
    by (rule reachable_step)
  have sub: "handleValidationComplete 3 [2, 10] (selecting 0)
      = (fst (handleValidationComplete 3 [2, 10] (selecting 0)), [(True, 1)])"
    using right_sample
    by (simp add: handleValidationComplete_def selecting_def)
  have "step 3 False (selecting 0, [])
      (fst (handleValidationComplete 3 [2, 10] (selecting 0)), [] @ [(True, 1)])"
    by (rule step_submit [OF _ _ challenge_selecting sub]) (simp_all add: selecting_def)
  with cap show ?thesis by (auto intro: reachable_step)
qed

text \<open>
  C9. In every reachable session \<^verbatim>\<open>validationSuccess\<close> and \<^verbatim>\<open>isBlocked\<close> are not both
  true, and a session that has entered success (or blocked) stays there: whatever follows,
  the other terminal phase is never entered.
\<close>

theorem success_blocked_exclusive:
  "reachable maxAttempts enableColorTint (st, calls) \<Longrightarrow>
   \<not> (validationSuccess st \<and> isBlocked st) \<and>
   \<not> (phase maxAttempts st = Success \<and> phase maxAttempts st = Blocked) \<and>
   ((step maxAttempts enableColorTint)\<^sup>*\<^sup>* (st, calls) (st', calls') \<longrightarrow>
      (phase maxAttempts st = Success \<longrightarrow>
         phase maxAttempts st' = Success \<and> \<not> isBlocked st') \<and>
      (phase maxAttempts st = Blocked \<longrightarrow>
         phase maxAttempts st' = Blocked \<and> \<not> validationSuccess st'))"
proof -
  assume "reachable maxAttempts enableColorTint (st, calls)"
  then have inv: "session_inv maxAttempts (st, calls)" by (rule session_inv_reachable)
  then have excl: "\<not> (validationSuccess st \<and> isBlocked st)"
    by (auto simp: session_inv_def split: CaptchaStep.splits)
  have one: "\<not> (phase maxAttempts st = Success \<and> phase maxAttempts st = Blocked)"
    by simp
  have stay: "(step maxAttempts enableColorTint)\<^sup>*\<^sup>* (st, calls) (st', calls') \<longrightarrow>
      (phase maxAttempts st = Success \<longrightarrow>
         phase maxAttempts st' = Success \<and> \<not> isBlocked st') \<and>
      (phase maxAttempts st = Blocked \<longrightarrow>
         phase maxAttempts st' = Blocked \<and> \<not> validationSuccess st')"
    using excl by (auto simp: phase_Success_iff phase_Blocked_iff dest!: terminal_stays)
  from excl one stay show ?thesis by blast
qed

theorem success_blocked_exclusive_witness:
  "reachable 3 False (fst (handleValidationComplete 3 [2, 10] (selecting 0)), [(True, 1)]) \<and>
   validationSuccess (fst (handleValidationComplete 3 [2, 10] (selecting 0))) \<and>
   \<not> isBlocked (fst (handleValidationComplete 3 [2, 10] (selecting 0)))"
  using success_blocked_exclusive [OF reachable_sample_success] reachable_sample_success
    right_sample
  by (simp add: handleValidationComplete_def selecting_def)


text \<open>
  The restriction of submissions to the validation step matters. In the blocked state the
  result screen is mounted and offers no retry; the challenge is still stored, so a direct
  call of \<^verbatim>\<open>handleValidationComplete\<close> with the right sectors would set both flags and
  make a second \<^verbatim>\<open>onComplete\<close> call. No event of the user interface makes that call.
\<close>

lemma submit_needs_mounted_ShapeValidation:
  "render 3 (fst (handleValidationComplete 3 [0] (selecting 2)))
     = ValidationResultView \<lparr>vr_success = False, vr_isBlocked = True, vr_attemptCount = 3,
         vr_maxAttempts = 3, vr_canRetry = False\<rparr> \<and>
   handleValidationComplete 3 [2, 10] (fst (handleValidationComplete 3 [0] (selecting 2)))
     = (\<lparr>currentStep = Result, capturedData = Some sample_data,
          challenge = Some sample_challenge, validationSuccess = True, attemptCount = 4,
          isBlocked = True\<rparr>, [(True, 4)])"
  using wrong_sample right_sample
  by (simp add: handleValidationComplete_def selecting_def render_def canRetry_def)

section \<open>Challenge generation\<close>

lemma fill_correctSectors_result:
  assumes run: "fill_correctSectors rnd k n acc = Some r"
    and start: "distinct acc" "\<forall>s\<in>set acc. s < 16" "length acc \<le> n"
  shows "distinct r \<and> (\<forall>s\<in>set r. s < 16) \<and> length r = n"
proof -
  have "distinct acc \<longrightarrow> (\<forall>s\<in>set acc. s < 16) \<longrightarrow> length acc \<le> n \<longrightarrow>
        distinct r \<and> (\<forall>s\<in>set r. s < 16) \<and> length r = n"
  proof (rule fill_correctSectors.raw_induct
      [where P = "\<lambda>rnd k n acc r. distinct acc \<longrightarrow> (\<forall>s\<in>set acc. s < 16) \<longrightarrow>
         length acc \<le> n \<longrightarrow> distinct r \<and> (\<forall>s\<in>set r. s < 16) \<and> length r = n", OF _ run])
    fix fill :: "random_source \<Rightarrow> nat \<Rightarrow> nat \<Rightarrow> nat list \<Rightarrow> nat list option"
    fix rnd k n acc r
    assume IH: "\<And>rnd k n acc r. fill rnd k n acc = Some r \<Longrightarrow>
        distinct acc \<longrightarrow> (\<forall>s\<in>set acc. s < 16) \<longrightarrow> length acc \<le> n \<longrightarrow>
        distinct r \<and> (\<forall>s\<in>set r. s < 16) \<and> length r = n"
    assume body: "(if length acc < n
         then let sector = floor_times (rnd k) 16
              in if \<not> js_includes acc sector
                 then fill rnd (k + 1) n (acc @ [sector])
                 else fill rnd (k + 1) n acc
         else Some acc) = Some r"
    let ?s = "floor_times (rnd k) 16"
    have bound: "?s < 16" by (rule floor_times_less) simp
    show "distinct acc \<longrightarrow> (\<forall>s\<in>set acc. s < 16) \<longrightarrow> length acc \<le> n \<longrightarrow>
        distinct r \<and> (\<forall>s\<in>set r. s < 16) \<and> length r = n"
    proof (intro impI)
      assume pre: "distinct acc" "\<forall>s\<in>set acc. s < 16" "length acc \<le> n"
      show "distinct r \<and> (\<forall>s\<in>set r. s < 16) \<and> length r = n"
      proof (cases "length acc < n")
        case False
        with body pre show ?thesis by simp
      next
        case less: True
        show ?thesis
        proof (cases "js_includes acc ?s")
          case True
          with less body have "fill rnd (k + 1) n acc = Some r" by (simp add: Let_def)
          from IH [OF this] pre show ?thesis by blast
        next
          case False
          with less body have "fill rnd (k + 1) n (acc @ [?s]) = Some r" by (simp add: Let_def)
          from IH [OF this] pre False bound less show ?thesis
            by (auto simp: js_includes_def)
        qed
      qed
    qed
  qed
  with start show ?thesis by blast
qed


lemma js_sort_insert_props:
  "set (js_sort_insert v ws) = insert v (set ws)"
  "length (js_sort_insert v ws) = Suc (length ws)"
  by (induction ws) auto

lemma js_sort_insert_distinct:
  "distinct (js_sort_insert v ws) = (v \<notin> set ws \<and> distinct ws)"
  by (induction ws) (auto simp: js_sort_insert_props)

lemma js_sort_props:
  "set (js_sort xs) = set xs" "length (js_sort xs) = length xs"
  "distinct (js_sort xs) = distinct xs"
  by (induction xs) (auto simp: js_sort_def js_sort_insert_props js_sort_insert_distinct)

lemma newChallenge_correctSectors:
  assumes "newChallenge enableColorTint rnd = Some ch"
  shows "2 \<le> length (correctSectors ch) \<and> length (correctSectors ch) \<le> 5 \<and>
         distinct (correctSectors ch) \<and> (\<forall>s\<in>set (correctSectors ch). s < 16)"
proof -
  define k :: nat where "k = (if enableColorTint then 2 else 1)"
  define n where "n = floor_times (rnd k) 4 + 2"
  from assms obtain sectors where run: "fill_correctSectors rnd (k + 1) n [] = Some sectors"
    and ch: "correctSectors ch = js_sort sectors"
    by (auto simp: newChallenge_def Let_def k_def n_def split: option.splits)
  have "floor_times (rnd k) 4 < 4" by (rule floor_times_less) simp
  then have n: "2 \<le> n" "n \<le> 5" by (simp_all add: n_def)
  from fill_correctSectors_result [OF run] have
    "distinct sectors \<and> (\<forall>s\<in>set sectors. s < 16) \<and> length sectors = n" by simp
  with n ch show ?thesis by (simp add: js_sort_props)
qed

text \<open>
  C3. The generated list has between 2 and 5 elements, all different and all below 16
  (lemma \<open>newChallenge_correctSectors\<close>), but it is not always in ascending numeric order:
  when the draws give the sectors 2 and 10, \<^verbatim>\<open>sort()\<close> compares "10" with "2" as strings
  and the challenge holds \<open>[10, 2]\<close>.
\<close>

theorem correctSectors_sorted_as_strings:
  "handleCameraCapture False sample_source sample_data initial_state = Some (selecting 0) \<and>
   map_option correctSectors (challenge (selecting 0)) = Some [10, 2] \<and>
   \<not> sorted [10, 2 :: nat]"
  using handleCameraCapture_sample by (simp add: selecting_def sample_challenge_def)

section \<open>The watermark plan\<close>

lemma watermark_loop_unfold:
  "k = draws_before (correctSectors ch) i \<longrightarrow> i \<le> 16 \<longrightarrow>
   watermark_loop ch rnd i k data = data @ map (\<lambda>j. Some (loop_entry ch rnd j)) [i..<16]"
proof (induction ch rnd i k data rule: watermark_loop.induct)
  case (1 ch rnd i k data)
  show ?case
  proof (intro impI)
    assume k: "k = draws_before (correctSectors ch) i" and i: "i \<le> 16"
    show "watermark_loop ch rnd i k data = data @ map (\<lambda>j. Some (loop_entry ch rnd j)) [i..<16]"
    proof (cases "i < 16")
      case False
      with i have "i = 16" by simp
      then show ?thesis by simp
    next
      case True
      let ?inC = "js_includes (correctSectors ch) i"
      let ?k1 = "if ?inC then k else k + 1"
      let ?e = "\<lparr>sector = i, wshape = shapes ! floor_times (rnd ?k1) (length shapes),
                 wcolor = colors ! floor_times (rnd (?k1 + 1)) (length colors),
                 hasWatermark = (?inC \<or> less_0_3 (rnd k))\<rparr>"
      have next_k: "?k1 + 2 = draws_before (correctSectors ch) (i + 1)"
        using k by simp
      have e: "?e = loop_entry ch rnd i"
        using k by (simp add: loop_entry_def Let_def)
      have "watermark_loop ch rnd i k data
          = watermark_loop ch rnd (i + 1) (?k1 + 2) (data @ [Some ?e])"
        using True by (subst watermark_loop.simps) (simp add: Let_def)
      also have "\<dots> = (data @ [Some ?e]) @ map (\<lambda>j. Some (loop_entry ch rnd j)) [i + 1..<16]"
        using "1.IH" [OF True refl refl refl refl] next_k True by simp
      also have "\<dots> = data @ map (\<lambda>j. Some (loop_entry ch rnd j)) [i..<16]"
        using True e by (simp add: upt_conv_Cons)
      finally show ?thesis .
    qed
  qed
qed


lemma fold_js_assign_in_range:
  assumes "\<forall>s\<in>set cs. s < length data"
  shows "length (fold (\<lambda>s d. js_assign d s (g s)) cs data) = length data \<and>
         (\<forall>i<length data. fold (\<lambda>s d. js_assign d s (g s)) cs data ! i
             = (if i \<in> set cs then Some (g i) else data ! i))"
  using assms
proof (induction cs arbitrary: data)
  case Nil
  then show ?case by simp
next
  case (Cons c cs)
  let ?d = "js_assign data c (g c)"
  from Cons.prems have c: "c < length data" by simp
  then have d: "?d = data[c := Some (g c)]" by (simp add: js_assign_def)
  then have len: "length ?d = length data" by simp
  with Cons.prems have "\<forall>s\<in>set cs. s < length ?d" by simp
  from Cons.IH [OF this] len c d show ?case
    by (auto simp: nth_list_update)
qed

lemma draws_before_mono:
  "i < j \<Longrightarrow> draws_before cs i + (if js_includes cs i then 2 else 3) \<le> draws_before cs j"
proof (induction j)
  case 0
  then show ?case by simp
next
  case (Suc j)
  show ?case
  proof (cases "i = j")
    case True
    then show ?thesis by simp
  next
    case False
    with Suc.prems have "i < j" by simp
    from Suc.IH [OF this] show ?thesis by simp
  qed
qed

text \<open>
  C6. For a challenge whose correct sectors are all below 16 and any random source, the
  plan has 16 entries, entry \<open>i\<close> carrying sector \<open>i\<close>. A correct sector has the watermark,
  the shape of the challenge and its colour (red when the challenge has none). Any other
  sector \<open>i\<close> uses three draws of its own, at positions \<open>draws_before cs i\<close> and the two
  after it: it has the watermark exactly when the first is below the double 0.3, and its
  shape and colour are the elements of the three-element lists at the indices that
  \<^verbatim>\<open>Math.floor(draw * 3)\<close> gives for the second and the third. The index is below 3, and
  index \<open>j\<close> is given by the draws of the third \<open>[j/3, (j+1)/3)\<close> of the unit interval, up to
  one rounding step \<open>2 ^ -53\<close> at its two ends.
\<close>

theorem watermarkData_plan:
  assumes range: "\<forall>s\<in>set (correctSectors ch). s < 16"
  shows "length (watermarkData ch rnd) = 16 \<and>
    (\<forall>i<16. \<exists>w. watermarkData ch rnd ! i = Some w \<and> sector w = i \<and>
       (i \<in> set (correctSectors ch) \<longrightarrow>
          hasWatermark w \<and> wshape w = shape ch \<and>
          wcolor w = (case color ch of Some c \<Rightarrow> c | None \<Rightarrow> Red)) \<and>
       (i \<notin> set (correctSectors ch) \<longrightarrow>
          hasWatermark w
            = (draw_value (rnd (draws_before (correctSectors ch) i)) < 5404319552844595 / 2 ^ 54) \<and>
          wshape w = shapes ! floor_times (rnd (draws_before (correctSectors ch) i + 1)) 3 \<and>
          wcolor w = colors ! floor_times (rnd (draws_before (correctSectors ch) i + 2)) 3)) \<and>
    (\<forall>i j. i < j \<and> i \<notin> set (correctSectors ch) \<longrightarrow>
        draws_before (correctSectors ch) i + 3 \<le> draws_before (correctSectors ch) j) \<and>
    (\<forall>d. floor_times d 3 < 3) \<and>
    (\<forall>d j. floor_times d 3 = j \<longrightarrow>
        real j / 3 - 1 / 2 ^ 53 < draw_value d \<and> draw_value d < (real j + 1) / 3 + 1 / 2 ^ 53) \<and>
    (\<forall>d j. real j / 3 + 1 / 2 ^ 53 \<le> draw_value d \<and>
        draw_value d + 1 / 2 ^ 53 \<le> (real j + 1) / 3 \<longrightarrow> floor_times d 3 = j) \<and>
    length shapes = 3 \<and> distinct shapes \<and> length colors = 3 \<and> distinct colors"
proof -
  let ?cs = "correctSectors ch"
  let ?data = "map (\<lambda>j. Some (loop_entry ch rnd j)) [0..<16]"
  let ?target = "\<lambda>s. \<lparr>sector = s, wshape = shape ch,
      wcolor = (case color ch of Some c \<Rightarrow> c | None \<Rightarrow> Red), hasWatermark = True\<rparr>"
  have loop: "watermark_loop ch rnd 0 0 [] = ?data"
    using watermark_loop_unfold [of 0 ch 0 rnd "[]"]
    by (simp del: watermark_loop.simps upt_rec_numeral)
  have len: "length ?data = 16" by simp
  with range have "\<forall>s\<in>set ?cs. s < length ?data" by simp
  from fold_js_assign_in_range [OF this, of ?target]
  have plan_len: "length (watermarkData ch rnd) = 16"
    and plan_nth: "\<And>i. i < 16 \<Longrightarrow> watermarkData ch rnd ! i
        = (if i \<in> set ?cs then Some (?target i) else ?data ! i)"
    by (simp_all add: watermarkData_def loop del: watermark_loop.simps upt_rec_numeral)
  have entries: "\<forall>i<16. \<exists>w. watermarkData ch rnd ! i = Some w \<and> sector w = i \<and>
       (i \<in> set ?cs \<longrightarrow>
          hasWatermark w \<and> wshape w = shape ch \<and>
          wcolor w = (case color ch of Some c \<Rightarrow> c | None \<Rightarrow> Red)) \<and>
       (i \<notin> set ?cs \<longrightarrow>
          hasWatermark w = (draw_value (rnd (draws_before ?cs i)) < 5404319552844595 / 2 ^ 54) \<and>
          wshape w = shapes ! floor_times (rnd (draws_before ?cs i + 1)) 3 \<and>
          wcolor w = colors ! floor_times (rnd (draws_before ?cs i + 2)) 3)"
  proof (intro allI impI)
    fix i :: nat
    assume i: "i < 16"
    show "\<exists>w. watermarkData ch rnd ! i = Some w \<and> sector w = i \<and>
       (i \<in> set ?cs \<longrightarrow>
          hasWatermark w \<and> wshape w = shape ch \<and>
          wcolor w = (case color ch of Some c \<Rightarrow> c | None \<Rightarrow> Red)) \<and>
       (i \<notin> set ?cs \<longrightarrow>
          hasWatermark w = (draw_value (rnd (draws_before ?cs i)) < 5404319552844595 / 2 ^ 54) \<and>
          wshape w = shapes ! floor_times (rnd (draws_before ?cs i + 1)) 3 \<and>
          wcolor w = colors ! floor_times (rnd (draws_before ?cs i + 2)) 3)"
    proof (cases "i \<in> set ?cs")
      case True
      with plan_nth [OF i] show ?thesis by simp
    next
      case False
      have "?data ! i = Some (loop_entry ch rnd i)"
        using i by (simp del: upt_rec_numeral)
      with False plan_nth [OF i] have "watermarkData ch rnd ! i = Some (loop_entry ch rnd i)"
        by simp
      with False show ?thesis
        by (simp add: loop_entry_def js_includes_def shapes_def colors_def Let_def
            numeral_3_eq_3 less_0_3_iff)
    qed
  qed
  have apart: "\<forall>i j. i < j \<and> i \<notin> set ?cs \<longrightarrow> draws_before ?cs i + 3 \<le> draws_before ?cs j"
  proof (intro allI impI)
    fix i j :: nat
    assume "i < j \<and> i \<notin> set ?cs"
    then have "i < j" and "\<not> js_includes ?cs i" by (simp_all add: js_includes_def)
    with draws_before_mono [of i j ?cs] show "draws_before ?cs i + 3 \<le> draws_before ?cs j"
      by simp
  qed
  have index: "\<forall>d. floor_times d 3 < 3"
    by (simp add: floor_times_less)
  have thirds: "\<forall>d j. floor_times d 3 = j \<longrightarrow>
        real j / 3 - 1 / 2 ^ 53 < draw_value d \<and> draw_value d < (real j + 1) / 3 + 1 / 2 ^ 53"
    using floor_times_third by blast
  have inner: "\<forall>d j. real j / 3 + 1 / 2 ^ 53 \<le> draw_value d \<and>
        draw_value d + 1 / 2 ^ 53 \<le> (real j + 1) / 3 \<longrightarrow> floor_times d 3 = j"
    using floor_times_third_inner by blast
  have doms: "length shapes = 3" "distinct shapes" "length colors = 3" "distinct colors"
    by (simp_all add: shapes_def colors_def)
  show ?thesis
    by (intro conjI; (rule plan_len entries apart index thirds inner doms))
qed



theorem watermarkData_plan_witness:
  "correctSectors sample_challenge = [10, 2] \<and>
   length (watermarkData sample_challenge sample_source) = 16 \<and>
   (\<exists>w. watermarkData sample_challenge sample_source ! 2 = Some w \<and> sector w = 2 \<and>
        hasWatermark w \<and> wshape w = Triangle \<and> wcolor w = Red) \<and>
   (\<exists>w. watermarkData sample_challenge sample_source ! 0 = Some w \<and> sector w = 0 \<and>
        hasWatermark w \<and> wshape w = Triangle \<and> wcolor w = Red)"
proof -
  have r: "\<forall>s\<in>set (correctSectors sample_challenge). s < 16"
    by (simp add: sample_challenge_def)
  note plan = watermarkData_plan [OF r, of sample_source]
  note len = plan [THEN conjunct1]
  note at2 = plan [THEN conjunct2, THEN conjunct1, rule_format, of 2]
  note at0 = plan [THEN conjunct2, THEN conjunct1, rule_format, of 0]
  have two: "\<exists>w. watermarkData sample_challenge sample_source ! 2 = Some w \<and> sector w = 2 \<and>
        hasWatermark w \<and> wshape w = Triangle \<and> wcolor w = Red"
    using at2 by (auto simp: sample_challenge_def)
  have zero: "\<exists>w. watermarkData sample_challenge sample_source ! 0 = Some w \<and> sector w = 0 \<and>
        hasWatermark w \<and> wshape w = Triangle \<and> wcolor w = Red"
    using at0
    by (auto simp: sample_challenge_def floor_times_sample round53_exact_below shapes_def
        colors_def draw_value_sample)
  have cs: "correctSectors sample_challenge = [10, 2]"
    by (simp add: sample_challenge_def)
  from cs len two zero show ?thesis by blast
qed

end
